theory Spec2Isabelle
  imports Complex_Main
begin

section \<open>Dense tensors\<close>

text \<open>
  The code in \<^verbatim>\<open>dapc/cov_utils.py\<close> works on dense torch tensors.  A tensor is modelled
  by its shape and by the function from a multi-index (one position per dimension, in
  order) to the element stored there.  Only the elements whose index lies inside the shape
  belong to the tensor.  Elements are mathematical reals (exact arithmetic, no rounding);
  the one place where the code divides by a quantity that can be zero is modelled
  explicitly in \<open>calc_cov_from_data\<close>.
\<close>

record 'a tensor =
  shape :: "nat list"
  elems :: "nat list \<Rightarrow> 'a"

definition numel :: "'a tensor \<Rightarrow> nat" where
  "numel t = prod_list (shape t)"

text \<open>Row-major offset of a multi-index in a contiguous tensor of the given shape, and back.\<close>

fun ravel :: "nat list \<Rightarrow> nat list \<Rightarrow> nat" where
  "ravel (n # ns) (i # is) = i * prod_list ns + ravel ns is"
| "ravel _ _ = 0"

fun unravel :: "nat list \<Rightarrow> nat \<Rightarrow> nat list" where
  "unravel [] k = []"
| "unravel (n # ns) k = (k div prod_list ns) # unravel ns (k mod prod_list ns)"

text \<open>All multi-indices of a shape, in row-major order.\<close>

fun indices :: "nat list \<Rightarrow> nat list list" where
  "indices [] = [[]]"
| "indices (n # ns) = concat (map (\<lambda>i. map ((#) i) (indices ns)) [0..<n])"

fun index_of :: "nat list \<Rightarrow> nat \<Rightarrow> nat" where
  "index_of [] k = 0"
| "index_of (x # xs) k = (if x = k then 0 else Suc (index_of xs k))"

definition tmap :: "('a \<Rightarrow> 'b) \<Rightarrow> 'a tensor \<Rightarrow> 'b tensor" where
  "tmap f t = \<lparr>shape = shape t, elems = (\<lambda>idx. f (elems t idx))\<rparr>"

text \<open>\<^verbatim>\<open>t.reshape(sh)\<close>, \<^verbatim>\<open>t.view(sh)\<close>: the same elements in row-major order under a new shape.\<close>

definition reshape :: "'a tensor \<Rightarrow> nat list \<Rightarrow> 'a tensor" where
  "reshape t sh = \<lparr>shape = sh, elems = (\<lambda>idx. elems t (unravel (shape t) (ravel sh idx)))\<rparr>"

definition flatten :: "'a tensor \<Rightarrow> 'a tensor" where
  "flatten t = reshape t [numel t]"

text \<open>\<^verbatim>\<open>t.permute(p)\<close>: dimension \<open>n\<close> of the result is dimension \<open>p ! n\<close> of \<open>t\<close>.\<close>

definition permute :: "'a tensor \<Rightarrow> nat list \<Rightarrow> 'a tensor" where
  "permute t p = \<lparr>shape = map (\<lambda>k. shape t ! k) p,
                  elems = (\<lambda>idx. elems t (map (\<lambda>k. idx ! index_of p k) [0..<length p]))\<rparr>"

text \<open>\<^verbatim>\<open>t.transpose(i, j)\<close> swaps two dimensions; \<^verbatim>\<open>t.t()\<close> transposes a matrix.\<close>

definition transpose_t :: "'a tensor \<Rightarrow> nat \<Rightarrow> nat \<Rightarrow> 'a tensor" where
  "transpose_t t i j = permute t ([0..<length (shape t)][i := j, j := i])"

definition t2d :: "'a tensor \<Rightarrow> 'a tensor" where
  "t2d t = transpose_t t 0 1"

text \<open>\<^verbatim>\<open>torch.cat([a, b], dim)\<close>.\<close>

definition cat :: "'a tensor \<Rightarrow> 'a tensor \<Rightarrow> nat \<Rightarrow> 'a tensor" where
  "cat a b ax = \<lparr>shape = (shape a)[ax := shape a ! ax + shape b ! ax],
                  elems = (\<lambda>idx. if idx ! ax < shape a ! ax then elems a idx
                                  else elems b (idx[ax := idx ! ax - shape a ! ax]))\<rparr>"

definition zeros :: "nat list \<Rightarrow> real tensor" where
  "zeros sh = \<lparr>shape = sh, elems = (\<lambda>idx. 0)\<rparr>"

definition ones :: "nat list \<Rightarrow> real tensor" where
  "ones sh = \<lparr>shape = sh, elems = (\<lambda>idx. 1)\<rparr>"

text \<open>\<^verbatim>\<open>torch.eye(n, m)\<close>.\<close>

definition eye :: "nat \<Rightarrow> nat \<Rightarrow> real tensor" where
  "eye n m = \<lparr>shape = [n, m], elems = (\<lambda>idx. if idx ! 0 = idx ! 1 then 1 else 0)\<rparr>"

text \<open>\<^verbatim>\<open>t.triu()\<close>: keeps the elements on and above the main diagonal of the last two
  dimensions and zeroes the others.\<close>

definition triu :: "real tensor \<Rightarrow> real tensor" where
  "triu t = \<lparr>shape = shape t,
             elems = (\<lambda>idx. if idx ! (length idx - 2) \<le> idx ! (length idx - 1)
                             then elems t idx else 0)\<rparr>"

text \<open>\<^verbatim>\<open>t.repeat(reps)\<close> for \<open>reps\<close> of the rank of \<open>t\<close>: tiles \<open>t\<close> along every dimension.\<close>

definition repeat :: "'a tensor \<Rightarrow> nat list \<Rightarrow> 'a tensor" where
  "repeat t reps = \<lparr>shape = map2 (*) (shape t) reps,
                    elems = (\<lambda>idx. elems t (map2 (\<lambda>i n. i mod n) idx (shape t)))\<rparr>"

text \<open>\<^verbatim>\<open>t.unfold(dim, size, step)\<close>: all windows of length \<open>size\<close> taken every \<open>step\<close>
  positions along \<open>dim\<close>; the position inside the window becomes a new last dimension.\<close>

definition unfold :: "'a tensor \<Rightarrow> nat \<Rightarrow> nat \<Rightarrow> nat \<Rightarrow> 'a tensor" where
  "unfold t ax sz step =
     \<lparr>shape = (shape t)[ax := (shape t ! ax - sz) div step + 1] @ [sz],
      elems = (\<lambda>idx. elems t ((butlast idx)[ax := idx ! ax * step + last idx]))\<rparr>"

text \<open>The slice \<^verbatim>\<open>[:stop]\<close> along one dimension (all other dimensions in full).  Python
  clamps \<open>stop\<close> to the size; the slice \<^verbatim>\<open>[:-1]\<close> is \<open>stop = size - 1\<close>.\<close>

definition slice_to :: "'a tensor \<Rightarrow> nat \<Rightarrow> nat \<Rightarrow> 'a tensor" where
  "slice_to t ax stop = \<lparr>shape = (shape t)[ax := min stop (shape t ! ax)], elems = elems t\<rparr>"

text \<open>Elementwise binary operations of two tensors of the same rank, with torch's
  broadcasting: where one operand has size 1 in a dimension the result has the size of the
  other operand, and the operand of size 1 is read at position 0 whatever the index.\<close>

definition expand_idx :: "nat list \<Rightarrow> nat list \<Rightarrow> nat list" where
  "expand_idx sh idx = map2 (\<lambda>n i. if n = 1 then 0 else i) sh idx"

definition broadcast_shape :: "nat list \<Rightarrow> nat list \<Rightarrow> nat list" where
  "broadcast_shape sa sb = map2 (\<lambda>n m. if n = 1 then m else n) sa sb"

definition binop :: "('a \<Rightarrow> 'b \<Rightarrow> 'c) \<Rightarrow> 'a tensor \<Rightarrow> 'b tensor \<Rightarrow> 'c tensor" where
  "binop f a b = \<lparr>shape = broadcast_shape (shape a) (shape b),
                  elems = (\<lambda>idx. f (elems a (expand_idx (shape a) idx))
                                    (elems b (expand_idx (shape b) idx)))\<rparr>"

definition tadd :: "real tensor \<Rightarrow> real tensor \<Rightarrow> real tensor" where
  "tadd = binop (+)"

definition tsub :: "real tensor \<Rightarrow> real tensor \<Rightarrow> real tensor" where
  "tsub = binop (-)"

definition tmul :: "real tensor \<Rightarrow> real tensor \<Rightarrow> real tensor" where
  "tmul = binop (*)"

definition tdiv :: "real tensor \<Rightarrow> real tensor \<Rightarrow> real tensor" where
  "tdiv = binop (/)"

text \<open>\<^verbatim>\<open>torch.sum(t, dim, keepdim=True)\<close>, \<^verbatim>\<open>t.sum(dim)\<close> and \<^verbatim>\<open>torch.sum(t)\<close>.\<close>

definition sum_keep :: "'a::comm_monoid_add tensor \<Rightarrow> nat \<Rightarrow> 'a tensor" where
  "sum_keep t ax = \<lparr>shape = (shape t)[ax := 1],
                     elems = (\<lambda>idx. \<Sum>k<shape t ! ax. elems t (idx[ax := k]))\<rparr>"

definition sum_dim :: "'a::comm_monoid_add tensor \<Rightarrow> nat \<Rightarrow> 'a tensor" where
  "sum_dim t ax = \<lparr>shape = take ax (shape t) @ drop (Suc ax) (shape t),
                    elems = (\<lambda>idx. \<Sum>k<shape t ! ax. elems t (take ax idx @ [k] @ drop ax idx))\<rparr>"

definition sum_all :: "'a::comm_monoid_add tensor \<Rightarrow> 'a" where
  "sum_all t = sum_list (map (elems t) (indices (shape t)))"

text \<open>\<^verbatim>\<open>torch.min(t)\<close>: the least element of a tensor that has one.\<close>

definition min_t :: "'a::linorder tensor \<Rightarrow> 'a" where
  "min_t t = min_list (map (elems t) (indices (shape t)))"

text \<open>\<^verbatim>\<open>t.all(dim)\<close> on a boolean tensor.\<close>

definition all_dim :: "bool tensor \<Rightarrow> nat \<Rightarrow> bool tensor" where
  "all_dim t ax = \<lparr>shape = take ax (shape t) @ drop (Suc ax) (shape t),
                    elems = (\<lambda>idx. list_all (\<lambda>k. elems t (take ax idx @ [k] @ drop ax idx))
                                             [0..<shape t ! ax])\<rparr>"

text \<open>\<^verbatim>\<open>t.unsqueeze(dim)\<close> inserts a dimension of size 1.\<close>

definition unsqueeze :: "'a tensor \<Rightarrow> nat \<Rightarrow> 'a tensor" where
  "unsqueeze t ax = \<lparr>shape = take ax (shape t) @ [1] @ drop ax (shape t),
                      elems = (\<lambda>idx. elems t (take ax idx @ drop (Suc ax) idx))\<rparr>"

text \<open>\<^verbatim>\<open>a.matmul(b)\<close> of two matrices.\<close>

definition matmul :: "real tensor \<Rightarrow> real tensor \<Rightarrow> real tensor" where
  "matmul a b = \<lparr>shape = [shape a ! 0, shape b ! 1],
                 elems = (\<lambda>idx. \<Sum>k<shape a ! 1. elems a [idx ! 0, k] * elems b [k, idx ! 1])\<rparr>"

text \<open>The rows of a matrix, as lists: the elements inside the shape and nothing else.\<close>

definition rows :: "'a tensor \<Rightarrow> 'a list list" where
  "rows t = map (\<lambda>a. map (\<lambda>b. elems t [a, b]) [0..<shape t ! 1]) [0..<shape t ! 0]"

definition of_rows :: "'a::zero list list \<Rightarrow> 'a tensor" where
  "of_rows xss = \<lparr>shape = [length xss, length (hd xss)],
                  elems = (\<lambda>idx. xss ! (idx ! 0) ! (idx ! 1))\<rparr>"

section \<open>The Toeplitzifier\<close>

definition matrix_toeplitzify :: "real tensor \<Rightarrow> nat \<Rightarrow> nat \<Rightarrow> real tensor" where
  "matrix_toeplitzify cov0 T d =
    (let cov = tmap (\<lambda>x. x / 2) (tadd cov0 (t2d cov0));
         cov = reshape (permute (reshape cov [T, d, T, d]) [1, 3, 0, 2]) [d * d, T * T];
         cov = cat cov (zeros [d * d, T]) 1;
         indicator = repeat (reshape (triu (ones [T + 1, T])) [1, (T + 1) * T]) [d * d, 1];
         cov_unfold = unfold cov 1 (T + 1) (T + 1);
         ind_unfold = unfold indicator 1 (T + 1) (T + 1);
         cov_cut = slice_to cov_unfold 2 (shape cov_unfold ! 2 - 1);
         ind_cut = slice_to ind_unfold 2 (shape ind_unfold ! 2 - 1);
         avg = tdiv (sum_keep (tmul cov_cut ind_cut) 1) (sum_keep ind_cut 1);
         avg = tmul (cat avg (zeros [d * d, 1, 1]) 2) ind_unfold;
         avg = reshape (slice_to (reshape avg [d * d, (T + 1) * T]) 1 (T * T)) [d, d, T, T];
         indicator = reshape (triu (ones [T, T])) [1, 1, T, T];
         result = tdiv (tadd avg (permute avg [1, 0, 3, 2]))
                       (tadd indicator (transpose_t indicator 2 3));
         result = reshape (permute result [2, 0, 3, 1]) [T * d, T * d]
     in result)"

section \<open>The masked cross-covariance estimator\<close>

datatype error = ValueError string | RuntimeError

text \<open>
  What \<open>calc_cov_from_data\<close> returns when it does not raise: a covariance matrix, or,
  when no window of the batch is valid, the matrix of the given shape whose entries are
  all NaN.  In that case \<^verbatim>\<open>torch.sum(mask_float)\<close> is 0, the mean is 0/0 = NaN in
  every component, and NaN propagates through every later operation (the subtraction, the
  products with the zero mask, the sums, the Toeplitzifier and the regularisation).
\<close>

datatype cov_out = Cov "real tensor" | NaNs "nat list"

definition T_msg :: string where
  "T_msg = ''T must be shorter than the length of the shortest '' @
           ''time series. If you are using the DCA model, 2 * DCA.T must be '' @
           ''shorter than the shortest time series.''"

definition calc_cov_from_data ::
    "real tensor \<Rightarrow> bool tensor \<Rightarrow> nat \<Rightarrow> bool \<Rightarrow> real \<Rightarrow> error + cov_out" where
  "calc_cov_from_data xs_pad src_mask T toeplitzify reg =
    (let B = shape xs_pad ! 0;
         maxlen = shape xs_pad ! 1;
         d = shape xs_pad ! 2
     in if min_t (sum_dim (tmap of_bool src_mask) 1) \<le> T then Inl (ValueError T_msg)
        else
          let xs_with_lags = unfold (reshape xs_pad [B, maxlen * d]) 1 (T * d) d;
              mask_with_lags = all_dim (unfold src_mask 1 T 1) 2;
              mask_float = unsqueeze (flatten (tmap of_bool mask_with_lags)) 1;
              xs_with_lags = reshape xs_with_lags [numel xs_with_lags div (T * d), T * d];
              n_valid = sum_all mask_float
          in if n_valid = 0 then Inr (NaNs [T * d, T * d])
             else
               let xs_with_lags_mean =
                     tmap (\<lambda>x. x / n_valid) (sum_keep (tmul xs_with_lags mask_float) 0);
                   xs_with_lags = tsub xs_with_lags xs_with_lags_mean;
                   cov_est = tmap (\<lambda>x. x / n_valid)
                               (matmul (t2d (tmul xs_with_lags mask_float)) xs_with_lags);
                   cov_est = (if toeplitzify then matrix_toeplitzify cov_est T d else cov_est);
                   cov_est = (if reg > 0
                              then tadd cov_est (tmap (\<lambda>x. reg * x) (eye (T * d) (T * d)))
                              else cov_est)
               in Inr (Cov cov_est))"

section \<open>The spectrum rectifier\<close>


section \<open>The mutual-information calculator\<close>

text \<open>
  The determinant of a square matrix given by its rows, by expansion along the first row.
\<close>

function det :: "real list list \<Rightarrow> real" where
  "det [] = 1"
| "det (r # rs) =
     (\<Sum>j<length r. (- 1) ^ j * r ! j * det (map (\<lambda>row. take j row @ drop (Suc j) row) rs))"
  by pat_completeness auto
termination
  by (relation "measure length") auto

text \<open>
  A floating-point result over exact reals: a finite value, an infinity or NaN, with the
  IEEE rules for the two operations the calculator applies to log-determinants.
\<close>

datatype xfloat = Fin real | PosInf | NegInf | NaN

fun xscale :: "real \<Rightarrow> xfloat \<Rightarrow> xfloat" where
  "xscale c (Fin v) = Fin (c * v)"
| "xscale c PosInf = (if 0 < c then PosInf else if c < 0 then NegInf else NaN)"
| "xscale c NegInf = (if 0 < c then NegInf else if c < 0 then PosInf else NaN)"
| "xscale c NaN = NaN"

fun xsub :: "xfloat \<Rightarrow> xfloat \<Rightarrow> xfloat" where
  "xsub (Fin a) (Fin b) = Fin (a - b)"
| "xsub NaN y = NaN"
| "xsub x NaN = NaN"
| "xsub PosInf PosInf = NaN"
| "xsub NegInf NegInf = NaN"
| "xsub PosInf y = PosInf"
| "xsub NegInf y = NegInf"
| "xsub (Fin a) PosInf = NegInf"
| "xsub (Fin a) NegInf = PosInf"

text \<open>
  \<^verbatim>\<open>torch.logdet\<close> of a matrix: the logarithm of the determinant, \<open>-inf\<close> when the
  determinant is zero and NaN when it is negative; a matrix that is not square is rejected
  with a RuntimeError.
\<close>

definition logdet_rows :: "real list list \<Rightarrow> xfloat" where
  "logdet_rows xss = (if 0 < det xss then Fin (ln (det xss))
                      else if det xss = 0 then NegInf else NaN)"

definition logdet :: "real tensor \<Rightarrow> error + xfloat" where
  "logdet A = (if shape A ! 0 = shape A ! 1 then Inr (logdet_rows (rows A)) else Inl RuntimeError)"

definition calc_pi_from_cov :: "real tensor \<Rightarrow> error + xfloat" where
  "calc_pi_from_cov cov_2_T_pi =
     (let T_pi = shape cov_2_T_pi ! 0 div 2;
          cov_T_pi = slice_to (slice_to cov_2_T_pi 0 T_pi) 1 T_pi
      in case logdet cov_T_pi of
           Inl e \<Rightarrow> Inl e
         | Inr logdet_T_pi \<Rightarrow>
             (case logdet cov_2_T_pi of
                Inl e \<Rightarrow> Inl e
              | Inr logdet_2T_pi \<Rightarrow> Inr (xsub logdet_T_pi (xscale 0.5 logdet_2T_pi))))"

section \<open>Vocabulary of the specification\<close>

text \<open>The valid length of sequence \<open>b\<close>: the number of true entries in row \<open>b\<close> of the mask.\<close>

definition valid_length :: "bool tensor \<Rightarrow> nat \<Rightarrow> nat" where
  "valid_length src_mask b =
     length (filter (\<lambda>l. elems src_mask [b, l]) [0..<shape src_mask ! 1])"

text \<open>The padding mask of a batch of sequences of the given lengths, padded to length \<open>L\<close>.\<close>

definition prefix_mask :: "nat list \<Rightarrow> nat \<Rightarrow> bool tensor" where
  "prefix_mask lens L =
     \<lparr>shape = [length lens, L], elems = (\<lambda>idx. idx ! 1 < lens ! (idx ! 0))\<rparr>"

text \<open>
  The symmetrized input \<open>(M + M\<^sup>t) / 2\<close>, entry by entry, and the mean over the \<open>T - k\<close>
  blocks at lag \<open>k\<close> of the symmetrized input: entry \<open>(i, j)\<close> of the mean of the blocks
  \<open>(w, w + k)\<close> for \<open>w < T - k\<close>.
\<close>

definition sym_part :: "real tensor \<Rightarrow> nat \<Rightarrow> nat \<Rightarrow> real" where
  "sym_part cov a b = (elems cov [a, b] + elems cov [b, a]) / 2"

definition lag_mean :: "real tensor \<Rightarrow> nat \<Rightarrow> nat \<Rightarrow> nat \<Rightarrow> nat \<Rightarrow> nat \<Rightarrow> real" where
  "lag_mean cov T d k i j =
     (\<Sum>w<T - k. sym_part cov (w * d + i) ((w + k) * d + j)) / real (T - k)"

text \<open>Entry \<open>(a, b)\<close> of the block-Toeplitz matrix built from the lag means: block
  \<open>(a div d, b div d)\<close> is the lag mean for the difference of the block indices, transposed
  below the diagonal.\<close>

definition toeplitz_entry :: "real tensor \<Rightarrow> nat \<Rightarrow> nat \<Rightarrow> nat \<Rightarrow> nat \<Rightarrow> real" where
  "toeplitz_entry cov T d a b =
     (if a div d \<le> b div d then lag_mean cov T d (b div d - a div d) (a mod d) (b mod d)
      else lag_mean cov T d (a div d - b div d) (b mod d) (a mod d))"


text \<open>A 4 by 4 matrix that is neither symmetric nor Toeplitz, used as a concrete input.\<close>

definition M4 :: "real tensor" where
  "M4 = of_rows [[1, 2, 3, 4], [5, 6, 7, 8], [9, 10, 11, 12], [13, 14, 15, 16]]"

text \<open>The window of \<open>T\<close> timesteps of sequence \<open>b\<close> that starts at timestep \<open>w\<close> is valid
  when the mask is true on all of it.\<close>

definition window_valid :: "bool tensor \<Rightarrow> nat \<Rightarrow> nat \<Rightarrow> nat \<Rightarrow> bool" where
  "window_valid src_mask T b w = list_all (\<lambda>k. elems src_mask [b, w + k]) [0..<T]"


text \<open>Component \<open>k\<close> of the lagged vector of sequence \<open>b\<close> at start position \<open>w\<close>: the
  \<open>T\<close> feature vectors of timesteps \<open>w, ..., w + T - 1\<close>, concatenated.\<close>

definition lagged :: "real tensor \<Rightarrow> nat \<Rightarrow> nat \<Rightarrow> nat \<Rightarrow> nat \<Rightarrow> real" where
  "lagged X d b w k = elems X [b, w + k div d, k mod d]"

text \<open>The mean of the lagged vectors over all \<open>B * W\<close> windows, and the average of the outer
  products of the mean-subtracted lagged vectors: the plain empirical cross-covariance.\<close>

definition lagged_mean :: "real tensor \<Rightarrow> nat \<Rightarrow> nat \<Rightarrow> nat \<Rightarrow> nat \<Rightarrow> real" where
  "lagged_mean X B W d k = (\<Sum>b<B. \<Sum>w<W. lagged X d b w k) / real (B * W)"

definition empirical_cov :: "real tensor \<Rightarrow> nat \<Rightarrow> nat \<Rightarrow> nat \<Rightarrow> nat \<Rightarrow> nat \<Rightarrow> real" where
  "empirical_cov X B W d p q =
     (\<Sum>b<B. \<Sum>w<W. (lagged X d b w p - lagged_mean X B W d p)
                     * (lagged X d b w q - lagged_mean X B W d q)) / real (B * W)"

text \<open>Concrete batches: one sequence 1, ..., 6 of scalars; one sequence 1, ..., 5 of scalars;
  and a mask of one row of length 5 that is true at the even positions only.\<close>

definition X6 :: "real tensor" where
  "X6 = \<lparr>shape = [1, 6, 1], elems = (\<lambda>idx. [1, 2, 3, 4, 5, 6] ! (idx ! 1))\<rparr>"



text \<open>The leading \<open>k \<times> k\<close> block of a matrix given by its rows.\<close>

definition leading_block :: "real list list \<Rightarrow> nat \<Rightarrow> real list list" where
  "leading_block xss k = map (take k) (take k xss)"





definition symmetric :: "real tensor \<Rightarrow> bool" where
  "symmetric A \<longleftrightarrow> (\<forall>i<shape A ! 0. \<forall>j<shape A ! 1. elems A [i, j] = elems A [j, i])"



definition D3x3 :: "real tensor" where
  "D3x3 = of_rows [[2, 0, 0], [0, 3, 0], [0, 0, 4]]"

section \<open>Basic facts about the tensor operations\<close>

lemma broadcast_shape_simps [simp]:
  "broadcast_shape [] sb = []"
  "broadcast_shape sa [] = []"
  "broadcast_shape (n # sa) (m # sb) = (if n = 1 then m else n) # broadcast_shape sa sb"
  by (simp_all add: broadcast_shape_def)

section \<open>The length check of the estimator\<close>

lemma indices_single: "indices [n] = map (\<lambda>i. [i]) [0..<n]"
  by simp

lemma sum_of_bool_filter: "(\<Sum>k<n. of_bool (P k)) = length (filter P [0..<n])"
  by (induction n) simp_all

lemma mask_row_counts:
  assumes "shape src_mask = [B, L]"
  shows "min_t (sum_dim (tmap of_bool src_mask) 1)
           = min_list (map (valid_length src_mask) [0..<B])"
  using assms
  by (simp add: min_t_def sum_dim_def tmap_def valid_length_def [abs_def]
        sum_of_bool_filter comp_def)



section \<open>Index arithmetic of row-major tensors\<close>

lemma ravel_less: "list_all2 (<) idx sh \<Longrightarrow> ravel sh idx < prod_list sh"
proof (induction idx sh rule: list_all2_induct)
  case Nil
  then show ?case by simp
next
  case (Cons i idx n sh)
  have "i * prod_list sh + ravel sh idx < i * prod_list sh + prod_list sh"
    using Cons.IH by simp
  also have "\<dots> = Suc i * prod_list sh" by simp
  also have "\<dots> \<le> n * prod_list sh"
    using Cons.hyps(1) by (intro mult_le_mono1) simp
  finally show ?case by simp
qed

lemma unravel_ravel: "list_all2 (<) idx sh \<Longrightarrow> unravel sh (ravel sh idx) = idx"
proof (induction idx sh rule: list_all2_induct)
  case Nil
  then show ?case by simp
next
  case (Cons i idx n sh)
  have "ravel sh idx < prod_list sh"
    using Cons.hyps(2) by (rule ravel_less)
  then show ?case
    using Cons.IH by simp
qed

lemma reshape_elems:
  assumes "list_all2 (<) idx' (shape t)" and "ravel (shape t) idx' = ravel sh idx"
  shows "elems (reshape t sh) idx = elems t idx'"
  using unravel_ravel [OF assms(1)] assms(2) by (simp add: reshape_def)

lemma expand_one: "i < n \<Longrightarrow> (if n = Suc 0 then 0 else i) = i"
  by simp

lemma pair_less: "a < (m::nat) \<Longrightarrow> b < n \<Longrightarrow> a * n + b < m * n"
proof -
  assume a: "a < m" and b: "b < n"
  have "a * n + b < a * n + n" using b by simp
  also have "\<dots> = Suc a * n" by simp
  also have "\<dots> \<le> m * n" using a by (intro mult_le_mono1) simp
  finally show ?thesis .
qed


lemma sum_lag:
  fixes g :: "nat \<Rightarrow> real"
  shows "(\<Sum>w<T. if w + k < T then g w else 0) = (\<Sum>w<T - k. g w)"
proof -
  have "(\<Sum>w<T - k. g w) = (\<Sum>w<T. if w + k < T then g w else 0)"
    by (rule sum.mono_neutral_cong_left) auto
  then show ?thesis by simp
qed

lemma triu_flat:
  fixes w k T :: nat
  assumes "w < T" and "k \<le> T"
  shows "(w * (T + 1) + k) div T \<le> (w * (T + 1) + k) mod T \<longleftrightarrow> w + k < T"
proof (cases "w + k < T")
  case True
  have e: "w * (T + 1) + k = w * T + (w + k)" by (simp add: algebra_simps)
  have "(w * (T + 1) + k) div T = w" "(w * (T + 1) + k) mod T = w + k"
    unfolding e using True by simp_all
  with True show ?thesis by simp
next
  case False
  have e: "w * (T + 1) + k = Suc w * T + (w + k - T)"
    using False by (simp add: algebra_simps)
  have l: "w + k - T < T" using assms by simp
  have T: "T \<noteq> 0" using assms by simp
  have "(w * (T + 1) + k) div T = Suc w + (w + k - T) div T"
    unfolding e using T by (rule div_mult_self3)
  moreover have "(w * (T + 1) + k) mod T = (w + k - T) mod T"
    unfolding e by (rule mod_mult_self3)
  ultimately have "(w * (T + 1) + k) div T = Suc w" "(w * (T + 1) + k) mod T = w + k - T"
    using l by simp_all
  with False assms show ?thesis by simp
qed

lemma sym_elems:
  assumes "shape cov = [n, n]" "a < n" "b < n"
  shows "elems (tmap (\<lambda>x. x / 2) (tadd cov (t2d cov))) [a, b] = sym_part cov a b"
  using assms
  by (auto simp add: tmap_def tadd_def binop_def t2d_def transpose_t_def permute_def
        expand_idx_def sym_part_def)

lemma sym_shape:
  assumes "shape cov = [n, n]"
  shows "shape (tmap (\<lambda>x. x / 2) (tadd cov (t2d cov))) = [n, n]"
  using assms
  by (simp add: tmap_def tadd_def binop_def t2d_def transpose_t_def permute_def)

lemma layout_elems:
  assumes sh: "shape S = [T * d, T * d]" and "i < d" "j < d" "t1 < T" "t2 < T"
  shows "elems (reshape (permute (reshape S [T, d, T, d]) [1, 3, 0, 2]) [d * d, T * T])
           [i * d + j, t1 * T + t2] = elems S [t1 * d + i, t2 * d + j]"
proof -
  have "elems (reshape (permute (reshape S [T, d, T, d]) [1, 3, 0, 2]) [d * d, T * T])
           [i * d + j, t1 * T + t2] = elems (permute (reshape S [T, d, T, d]) [1, 3, 0, 2]) [i, j, t1, t2]"
    using assms by (intro reshape_elems) (simp_all add: permute_def reshape_def algebra_simps)
  also have "\<dots> = elems (reshape S [T, d, T, d]) [t1, i, t2, j]"
    by (simp add: permute_def)
  also have "\<dots> = elems S [t1 * d + i, t2 * d + j]"
    using assms pair_less [of t1 T i d] pair_less [of t2 T j d]
    by (intro reshape_elems) (simp_all add: algebra_simps)
  finally show ?thesis .
qed

lemma indicator_elems:
  assumes "0 < T" and "f < (T + 1) * T"
  shows "elems (repeat (reshape (triu (ones [T + 1, T])) [1, (T + 1) * T]) [d * d, 1]) [r, f]
           = (if f div T \<le> f mod T then 1 else 0)"
proof -
  have "elems (repeat (reshape (triu (ones [T + 1, T])) [1, (T + 1) * T]) [d * d, 1]) [r, f]
          = elems (reshape (triu (ones [T + 1, T])) [1, (T + 1) * T]) [0, f]"
    using assms by (simp add: repeat_def reshape_def)
  also have "\<dots> = elems (triu (ones [T + 1, T])) [f div T, f mod T]"
    using assms by (intro reshape_elems) (simp_all add: triu_def ones_def less_mult_imp_div_less)
  also have "\<dots> = (if f div T \<le> f mod T then 1 else 0)"
    by (simp add: triu_def ones_def)
  finally show ?thesis .
qed


lemma unfold_windows:
  fixes T :: nat
  assumes "0 < T"
  shows "(T * T + T - (T + 1)) div (T + 1) + 1 = T" and "((T + 1) * T - (T + 1)) div (T + 1) + 1 = T"
proof -
  obtain n where n: "T = Suc n"
    using assms by (cases T) simp_all
  have "T * T + T - (T + 1) = n * (T + 1)"
    unfolding n by (simp add: algebra_simps)
  moreover have "n * (T + 1) div (T + 1) = n"
    by (rule nonzero_mult_div_cancel_right) simp
  ultimately have "(T * T + T - (T + 1)) div (T + 1) = n"
    by (simp only:)
  then show "(T * T + T - (T + 1)) div (T + 1) + 1 = T"
    by (simp only: n)
  then show "((T + 1) * T - (T + 1)) div (T + 1) + 1 = T"
    by (simp add: algebra_simps)
qed

lemma avg_elems:
  assumes sh: "shape S = [T * d, T * d]" and T: "0 < T"
    and i: "i < d" and j: "j < d" and k: "k < T"
  defines "cov \<equiv> cat (reshape (permute (reshape S [T, d, T, d]) [1, 3, 0, 2]) [d * d, T * T])
                     (zeros [d * d, T]) 1"
  defines "indicator \<equiv> repeat (reshape (triu (ones [T + 1, T])) [1, (T + 1) * T]) [d * d, 1]"
  defines "cov_unfold \<equiv> unfold cov 1 (T + 1) (T + 1)"
  defines "ind_unfold \<equiv> unfold indicator 1 (T + 1) (T + 1)"
  defines "cov_cut \<equiv> slice_to cov_unfold 2 (shape cov_unfold ! 2 - 1)"
  defines "ind_cut \<equiv> slice_to ind_unfold 2 (shape ind_unfold ! 2 - 1)"
  shows "elems (tdiv (sum_keep (tmul cov_cut ind_cut) 1) (sum_keep ind_cut 1)) [i * d + j, 0, k]
           = (\<Sum>w<T - k. elems S [w * d + i, (w + k) * d + j]) / real (T - k)"
    and "shape (tdiv (sum_keep (tmul cov_cut ind_cut) 1) (sum_keep ind_cut 1)) = [d * d, 1, T]"
    and "shape ind_unfold = [d * d, T, T + 1]"
    and "\<And>r w k'. w < T \<Longrightarrow> k' \<le> T \<Longrightarrow> elems ind_unfold [r, w, k'] = (if w + k' < T then 1 else 0)"
proof -
  have r: "i * d + j < d * d"
    using i j by (rule pair_less)
  have sh_cov: "shape cov = [d * d, T * T + T]"
    by (simp add: cov_def cat_def reshape_def zeros_def)
  have sh_ind: "shape indicator = [d * d, (T + 1) * T]"
    by (simp add: indicator_def repeat_def reshape_def)
  have sh_cu: "shape cov_unfold = [d * d, T, T + 1]"
    using unfold_windows(1) [OF T] by (simp add: cov_unfold_def unfold_def sh_cov)
  show sh_iu: "shape ind_unfold = [d * d, T, T + 1]"
    using unfold_windows(2) [OF T] by (simp add: ind_unfold_def unfold_def sh_ind)
  have sh_cc: "shape cov_cut = [d * d, T, T]"
    by (simp add: cov_cut_def slice_to_def sh_cu)
  have sh_ic: "shape ind_cut = [d * d, T, T]"
    by (simp add: ind_cut_def slice_to_def sh_iu)
  have el_cc: "elems cov_cut = elems cov_unfold"
    by (simp add: cov_cut_def slice_to_def)
  have el_ic: "elems ind_cut = elems ind_unfold"
    by (simp add: ind_cut_def slice_to_def)
  show iu: "elems ind_unfold [r, w, k'] = (if w + k' < T then 1 else 0)"
    if w: "w < T" and k': "k' \<le> T" for r w k'
  proof -
    have "w * (T + 1) + k' < (T + 1) * T"
    proof -
      have "w * (T + 1) + k' < w * (T + 1) + (T + 1)" using k' by simp
      also have "\<dots> = Suc w * (T + 1)" by simp
      also have "\<dots> \<le> T * (T + 1)" using w by (intro mult_le_mono1) simp
      finally show ?thesis by (simp add: mult.commute)
    qed
    then have "elems indicator [r, w * (T + 1) + k'] =
        (if (w * (T + 1) + k') div T \<le> (w * (T + 1) + k') mod T then 1 else 0)"
      unfolding indicator_def using T by (intro indicator_elems)
    then show ?thesis
      using triu_flat [OF w k'] by (simp add: ind_unfold_def unfold_def)
  qed
  have cu: "elems cov_unfold [i * d + j, w, k] = elems S [w * d + i, (w + k) * d + j]"
    if w: "w + k < T" for w
  proof -
    have e: "w * (T + 1) + k = w * T + (w + k)"
      by (simp add: algebra_simps)
    have l: "w * T + (w + k) < T * T"
      using w by (intro pair_less) simp_all
    have "elems cov_unfold [i * d + j, w, k] = elems cov [i * d + j, w * T + (w + k)]"
      by (simp add: cov_unfold_def unfold_def algebra_simps)
    also have "\<dots> = elems (reshape (permute (reshape S [T, d, T, d]) [1, 3, 0, 2]) [d * d, T * T])
                       [i * d + j, w * T + (w + k)]"
      using l by (simp add: cov_def cat_def reshape_def)
    also have "\<dots> = elems S [w * d + i, (w + k) * d + j]"
      using w by (intro layout_elems [OF sh i j]) simp_all
    finally show ?thesis .
  qed
  have num: "elems (sum_keep (tmul cov_cut ind_cut) 1) [i * d + j, 0, k]
               = (\<Sum>w<T - k. elems S [w * d + i, (w + k) * d + j])"
  proof -
    have "elems (sum_keep (tmul cov_cut ind_cut) 1) [i * d + j, 0, k]
            = (\<Sum>w<T. elems (tmul cov_cut ind_cut) [i * d + j, w, k])"
      by (simp add: sum_keep_def tmul_def binop_def sh_cc sh_ic)
    also have "\<dots> = (\<Sum>w<T. if w + k < T then elems S [w * d + i, (w + k) * d + j] else 0)"
    proof (rule sum.cong [OF refl])
      fix w assume "w \<in> {..<T}"
      then have w: "w < T" by simp
      have "elems (tmul cov_cut ind_cut) [i * d + j, w, k]
              = elems cov_unfold [i * d + j, w, k] * elems ind_unfold [i * d + j, w, k]"
        using r w k
        by (auto simp add: tmul_def binop_def sh_cc sh_ic expand_idx_def el_cc el_ic)
      then show "elems (tmul cov_cut ind_cut) [i * d + j, w, k]
              = (if w + k < T then elems S [w * d + i, (w + k) * d + j] else 0)"
        using iu [OF w, of k] k cu [of w] by simp
    qed
    also have "\<dots> = (\<Sum>w<T - k. elems S [w * d + i, (w + k) * d + j])"
      by (rule sum_lag)
    finally show ?thesis .
  qed
  have den: "elems (sum_keep ind_cut 1) [i * d + j, 0, k] = real (T - k)"
  proof -
    have "elems (sum_keep ind_cut 1) [i * d + j, 0, k]
            = (\<Sum>w<T. elems ind_unfold [i * d + j, w, k])"
      by (simp add: sum_keep_def sh_ic el_ic)
    also have "\<dots> = (\<Sum>w<T. if w + k < T then 1 else 0)"
      using k by (intro sum.cong [OF refl]) (simp add: iu)
    also have "\<dots> = (\<Sum>w<T - k. 1)"
      by (rule sum_lag)
    finally show ?thesis by simp
  qed
  have sh_n: "shape (sum_keep (tmul cov_cut ind_cut) 1) = [d * d, 1, T]"
    by (simp add: sum_keep_def tmul_def binop_def sh_cc sh_ic)
  have sh_d: "shape (sum_keep ind_cut 1) = [d * d, 1, T]"
    by (simp add: sum_keep_def sh_ic)
  show "shape (tdiv (sum_keep (tmul cov_cut ind_cut) 1) (sum_keep ind_cut 1)) = [d * d, 1, T]"
    unfolding tdiv_def binop_def sh_n sh_d by simp
  have "elems (tdiv (sum_keep (tmul cov_cut ind_cut) 1) (sum_keep ind_cut 1)) [i * d + j, 0, k]
          = elems (sum_keep (tmul cov_cut ind_cut) 1) [i * d + j, 0, k]
            / elems (sum_keep ind_cut 1) [i * d + j, 0, k]"
    unfolding tdiv_def binop_def sh_n sh_d using r k by (auto simp add: expand_idx_def)
  then show "elems (tdiv (sum_keep (tmul cov_cut ind_cut) 1) (sum_keep ind_cut 1)) [i * d + j, 0, k]
           = (\<Sum>w<T - k. elems S [w * d + i, (w + k) * d + j]) / real (T - k)"
    by (simp only: num den)
qed


lemma sym_part_commute: "sym_part cov a b = sym_part cov b a"
  by (simp add: sym_part_def)

lemma lag_mean_0_commute: "lag_mean cov T d 0 i j = lag_mean cov T d 0 j i"
  by (simp add: lag_mean_def sym_part_commute [of cov "_ * d + i"])

lemma flat_split:
  fixes T :: nat
  assumes "t1 < T" "t2 < T"
  shows "(t1 * T + t2) div T = t1" "(t1 * T + t2) mod T = t2"
  using assms by simp_all

lemma toeplitzify_elems:
  assumes sh: "shape cov0 = [T * d, T * d]" and T: "0 < T" and a: "a < T * d" and b: "b < T * d"
  shows "elems (matrix_toeplitzify cov0 T d) [a, b] = toeplitz_entry cov0 T d a b"
proof -
  have d: "0 < d" using a by (cases d) simp_all
  define S where "S = tmap (\<lambda>x. x / 2) (tadd cov0 (t2d cov0))"
  define cov where "cov = cat (reshape (permute (reshape S [T, d, T, d]) [1, 3, 0, 2]) [d * d, T * T])
                     (zeros [d * d, T]) 1"
  define indicator where "indicator = repeat (reshape (triu (ones [T + 1, T])) [1, (T + 1) * T]) [d * d, 1]"
  define cov_unfold where "cov_unfold = unfold cov 1 (T + 1) (T + 1)"
  define ind_unfold where "ind_unfold = unfold indicator 1 (T + 1) (T + 1)"
  define cov_cut where "cov_cut = slice_to cov_unfold 2 (shape cov_unfold ! 2 - 1)"
  define ind_cut where "ind_cut = slice_to ind_unfold 2 (shape ind_unfold ! 2 - 1)"
  define avg1 where "avg1 = tdiv (sum_keep (tmul cov_cut ind_cut) 1) (sum_keep ind_cut 1)"
  define avg2 where "avg2 = tmul (cat avg1 (zeros [d * d, 1, 1]) 2) ind_unfold"
  define avg4 where "avg4 = reshape (slice_to (reshape avg2 [d * d, (T + 1) * T]) 1 (T * T)) [d, d, T, T]"
  define ind2 where "ind2 = reshape (triu (ones [T, T])) [1, 1, T, T]"
  define res where "res = tdiv (tadd avg4 (permute avg4 [1, 0, 3, 2]))
                               (tadd ind2 (transpose_t ind2 2 3))"
  have mt: "matrix_toeplitzify cov0 T d = reshape (permute res [2, 0, 3, 1]) [T * d, T * d]"
    unfolding matrix_toeplitzify_def Let_def res_def ind2_def avg4_def avg2_def avg1_def
      ind_cut_def cov_cut_def ind_unfold_def cov_unfold_def indicator_def cov_def S_def
    by (rule refl)
  have shS: "shape S = [T * d, T * d]"
    unfolding S_def using sh by (rule sym_shape)
  have elS: "elems S [x, y] = sym_part cov0 x y" if "x < T * d" "y < T * d" for x y
    unfolding S_def using sh that by (rule sym_elems)
  note avg = avg_elems [OF shS T, folded cov_def indicator_def cov_unfold_def ind_unfold_def
      cov_cut_def ind_cut_def avg1_def]
  have sh1: "shape avg1 = [d * d, 1, T]"
    unfolding avg1_def cov_cut_def ind_cut_def by (rule avg(2) [OF d d T])
  have shiu: "shape ind_unfold = [d * d, T, T + 1]"
    using avg(3) [OF d d T] .
  have iu: "elems ind_unfold [r, w, k] = (if w + k < T then 1 else 0)"
    if "w < T" "k \<le> T" for r w k
    using avg(4) [OF d d T that] .
  have el1: "elems avg1 [i * d + j, 0, k] = lag_mean cov0 T d k i j"
    if i: "i < d" and j: "j < d" and k: "k < T" for i j k
  proof -
    have "(\<Sum>w<T - k. elems S [w * d + i, (w + k) * d + j])
            = (\<Sum>w<T - k. sym_part cov0 (w * d + i) ((w + k) * d + j))"
    proof (rule sum.cong [OF refl])
      fix w assume "w \<in> {..<T - k}"
      then have w: "w + k < T" by simp
      then have "w < T" by simp
      from pair_less [OF this i] pair_less [OF w j]
      show "elems S [w * d + i, (w + k) * d + j] = sym_part cov0 (w * d + i) ((w + k) * d + j)"
        by (rule elS)
    qed
    moreover have "elems avg1 [i * d + j, 0, k]
        = (\<Sum>w<T - k. elems S [w * d + i, (w + k) * d + j]) / real (T - k)"
      unfolding avg1_def cov_cut_def ind_cut_def by (rule avg(1) [OF i j k])
    ultimately show ?thesis
      by (simp only: lag_mean_def)
  qed
  have el2: "elems avg2 [i * d + j, w, k]
               = (if w + k < T then lag_mean cov0 T d k i j else 0)"
    if i: "i < d" and j: "j < d" and w: "w < T" and k: "k \<le> T" for i j w k
  proof -
    have r: "i * d + j < d * d"
      using i j by (rule pair_less)
    have shc: "shape (cat avg1 (zeros [d * d, 1, 1]) 2) = [d * d, 1, T + 1]"
      by (simp add: cat_def sh1 zeros_def)
    have "elems avg2 [i * d + j, w, k]
            = elems (cat avg1 (zeros [d * d, 1, 1]) 2) [i * d + j, 0, k] * elems ind_unfold [i * d + j, w, k]"
      unfolding avg2_def tmul_def binop_def shc shiu using r w k T
      by (auto simp add: expand_idx_def)
    also have "\<dots> = (if k < T then elems avg1 [i * d + j, 0, k] else 0) * (if w + k < T then 1 else 0)"
      unfolding iu [OF w k] by (simp add: cat_def sh1 zeros_def)
    also have "\<dots> = (if w + k < T then lag_mean cov0 T d k i j else 0)"
      using el1 [OF i j] by auto
    finally show ?thesis .
  qed
  have sh2: "shape avg2 = [d * d, T, T + 1]"
    unfolding avg2_def tmul_def binop_def using T by (simp add: cat_def sh1 zeros_def shiu)
  have el4: "elems avg4 [i, j, t1, t2]
               = (if t1 \<le> t2 then lag_mean cov0 T d (t2 - t1) i j else 0)"
    if i: "i < d" and j: "j < d" and t1: "t1 < T" and t2: "t2 < T" for i j t1 t2
  proof -
    define f where "f = t1 * T + t2"
    have r: "i * d + j < d * d"
      using i j by (rule pair_less)
    have f: "f < T * T"
      unfolding f_def using t1 t2 by (rule pair_less)
    then have f': "f < T * (T + 1)"
      by (simp add: algebra_simps)
    have w: "f div (T + 1) < T"
      using f' by (rule less_mult_imp_div_less)
    have k: "f mod (T + 1) \<le> T"
      using mod_less_divisor [of "T + 1" f] by simp
    have "elems avg4 [i, j, t1, t2] = elems (slice_to (reshape avg2 [d * d, (T + 1) * T]) 1 (T * T)) [i * d + j, f]"
      unfolding avg4_def using r f
      by (intro reshape_elems) (simp_all add: slice_to_def reshape_def f_def algebra_simps)
    also have "\<dots> = elems (reshape avg2 [d * d, (T + 1) * T]) [i * d + j, f]"
      by (simp add: slice_to_def)
    also have "\<dots> = elems avg2 [i * d + j, f div (T + 1), f mod (T + 1)]"
    proof (rule reshape_elems)
      show "list_all2 (<) [i * d + j, f div (T + 1), f mod (T + 1)] (shape avg2)"
        using r w by (simp add: sh2)
      have "f div (T + 1) * (T + 1) + f mod (T + 1) = f"
        by (rule div_mult_mod_eq)
      then show "ravel (shape avg2) [i * d + j, f div (T + 1), f mod (T + 1)]
                   = ravel [d * d, (T + 1) * T] [i * d + j, f]"
        by (simp add: sh2 algebra_simps)
    qed
    also have "\<dots> = (if f div (T + 1) + f mod (T + 1) < T
                        then lag_mean cov0 T d (f mod (T + 1)) i j else 0)"
      using i j w k by (rule el2)
    finally have step: "elems avg4 [i, j, t1, t2] = (if f div (T + 1) + f mod (T + 1) < T
                        then lag_mean cov0 T d (f mod (T + 1)) i j else 0)" .
    have "f div (T + 1) + f mod (T + 1) < T \<longleftrightarrow> f div T \<le> f mod T"
      using triu_flat [OF w k] by (simp only: div_mult_mod_eq)
    also have "\<dots> \<longleftrightarrow> t1 \<le> t2"
      unfolding f_def using flat_split [OF t1 t2] by simp
    finally have c: "f div (T + 1) + f mod (T + 1) < T \<longleftrightarrow> t1 \<le> t2" .
    have m: "f mod (T + 1) = t2 - t1" if "t1 \<le> t2"
    proof -
      have e: "f = t1 * (T + 1) + (t2 - t1)"
        unfolding f_def using that by (simp add: algebra_simps)
      have "f mod (T + 1) = (t2 - t1) mod (T + 1)"
        unfolding e by (rule mod_mult_self3)
      also have "\<dots> = t2 - t1"
        using t2 by (intro mod_less) simp
      finally show ?thesis .
    qed
    show ?thesis
      unfolding step c using m by simp
  qed
  have sh4: "shape avg4 = [d, d, T, T]"
    by (simp add: avg4_def reshape_def)
  have el_ind2: "elems ind2 [0, 0, t1, t2] = (if t1 \<le> t2 then 1 else 0)"
    if t1: "t1 < T" and t2: "t2 < T" for t1 t2
  proof -
    have "elems ind2 [0, 0, t1, t2] = elems (triu (ones [T, T])) [t1, t2]"
      unfolding ind2_def using t1 t2
      by (intro reshape_elems) (simp_all add: triu_def ones_def)
    then show ?thesis
      by (simp add: triu_def ones_def)
  qed
  have sh_ind2: "shape ind2 = [1, 1, T, T]"
    by (simp add: ind2_def reshape_def)
  have el_res: "elems res [i, j, t1, t2]
                 = (elems avg4 [i, j, t1, t2] + elems avg4 [j, i, t2, t1])
                   / ((if t1 \<le> t2 then 1 else 0) + (if t2 \<le> t1 then 1 else 0))"
    if i: "i < d" and j: "j < d" and t1: "t1 < T" and t2: "t2 < T" for i j t1 t2
  proof -
    have "elems res [i, j, t1, t2]
                 = (elems avg4 [i, j, t1, t2] + elems avg4 [j, i, t2, t1])
                   / (elems ind2 [0, 0, t1, t2] + elems ind2 [0, 0, t2, t1])"
      unfolding res_def tdiv_def tadd_def binop_def transpose_t_def
      using i j t1 t2
      by (auto simp add: permute_def sh4 sh_ind2 expand_idx_def)
    then show ?thesis
      by (simp only: el_ind2 [OF t1 t2] el_ind2 [OF t2 t1])
  qed
  have sh_res: "shape res = [d, d, T, T]"
    unfolding res_def tdiv_def tadd_def binop_def transpose_t_def
    using d by (simp add: permute_def sh4 sh_ind2)
  define t1 i t2 j where "t1 = a div d" and "i = a mod d" and "t2 = b div d" and "j = b mod d"
  have i: "i < d" and j: "j < d"
    using d by (simp_all add: i_def j_def)
  have t1: "t1 < T" and t2: "t2 < T"
    using a b by (simp_all add: t1_def t2_def less_mult_imp_div_less)
  have ab: "a = t1 * d + i" "b = t2 * d + j"
    by (simp_all add: t1_def t2_def i_def j_def)
  have "elems (matrix_toeplitzify cov0 T d) [a, b] = elems (permute res [2, 0, 3, 1]) [t1, i, t2, j]"
    unfolding mt using i j t1 t2
    by (intro reshape_elems) (simp_all add: permute_def sh_res ab algebra_simps)
  also have "\<dots> = elems res [i, j, t1, t2]"
    by (simp add: permute_def)
  also have "\<dots> = (elems avg4 [i, j, t1, t2] + elems avg4 [j, i, t2, t1])
                   / ((if t1 \<le> t2 then 1 else 0) + (if t2 \<le> t1 then 1 else 0))"
    using i j t1 t2 by (rule el_res)
  also have "\<dots> = (if t1 \<le> t2 then lag_mean cov0 T d (t2 - t1) i j
                     else lag_mean cov0 T d (t1 - t2) j i)"
    unfolding el4 [OF i j t1 t2] el4 [OF j i t2 t1]
    using lag_mean_0_commute [of cov0 T d i j] by auto
  finally show ?thesis
    by (simp add: toeplitz_entry_def t1_def t2_def i_def j_def)
qed

lemma toeplitzify_shape: "shape (matrix_toeplitzify cov0 T d) = [T * d, T * d]"
  by (simp add: matrix_toeplitzify_def Let_def reshape_def)

section \<open>Properties of the Toeplitzifier\<close>

lemma toeplitz_entry_commute: "toeplitz_entry cov T d a b = toeplitz_entry cov T d b a"
  using lag_mean_0_commute [of cov T d "a mod d" "b mod d"]
  by (auto simp add: toeplitz_entry_def)

lemma block_index:
  fixes d :: nat
  assumes "i < d"
  shows "(t * d + i) div d = t" "(t * d + i) mod d = i"
  using assms by simp_all

lemma toeplitz_entry_block:
  assumes "i < d" "j < d"
  shows "toeplitz_entry cov T d (t * d + i) ((t + k) * d + j) = lag_mean cov T d k i j"
  using assms by (simp add: toeplitz_entry_def block_index)


text \<open>
  C1.  For a matrix \<open>M\<close> of shape \<open>(T * d, T * d)\<close> with \<open>T\<close> and \<open>d\<close> positive, the output of
  \<open>matrix_toeplitzify\<close> has the same shape and is block-Toeplitz: the \<open>d \<times> d\<close> blocks at
  \<open>(t1, t2)\<close> and \<open>(t1', t2')\<close> are equal whenever \<open>t1 - t2 = t1' - t2'\<close>; and the block at
  lag \<open>k \<ge> 0\<close> is the mean over the \<open>T - k\<close> blocks at that lag of the symmetrized input
  \<open>(M + M\<^sup>t) / 2\<close>.  (Every division in the function is by \<open>T - k\<close>, 1 or 2, never by zero.)
\<close>

theorem C1_block_toeplitz:
  assumes "shape M = [T * d, T * d]" and "0 < T" and "0 < d"
  shows "shape (matrix_toeplitzify M T d) = [T * d, T * d] \<and>
    (\<forall>t1<T. \<forall>t2<T. \<forall>t1'<T. \<forall>t2'<T. int t1 - int t2 = int t1' - int t2' \<longrightarrow>
       (\<forall>i<d. \<forall>j<d. elems (matrix_toeplitzify M T d) [t1 * d + i, t2 * d + j]
                      = elems (matrix_toeplitzify M T d) [t1' * d + i, t2' * d + j])) \<and>
    (\<forall>k<T. \<forall>t<T - k. \<forall>i<d. \<forall>j<d.
       elems (matrix_toeplitzify M T d) [t * d + i, (t + k) * d + j] = lag_mean M T d k i j)"
proof (intro conjI allI impI)
  show "shape (matrix_toeplitzify M T d) = [T * d, T * d]"
    by (rule toeplitzify_shape)
next
  fix t1 t2 t1' t2' i j
  assume b: "t1 < T" "t2 < T" "t1' < T" "t2' < T" "i < d" "j < d"
    and lag: "int t1 - int t2 = int t1' - int t2'"
  have e: "elems (matrix_toeplitzify M T d) [s * d + i, t * d + j]
             = toeplitz_entry M T d (s * d + i) (t * d + j)" if "s < T" "t < T" for s t
    using assms(1,2) pair_less [OF that(1) b(5)] pair_less [OF that(2) b(6)]
    by (rule toeplitzify_elems)
  have "toeplitz_entry M T d (t1 * d + i) (t2 * d + j)
          = toeplitz_entry M T d (t1' * d + i) (t2' * d + j)"
  proof -
    have "(t1 \<le> t2 \<longleftrightarrow> t1' \<le> t2') \<and> t2 - t1 = t2' - t1' \<and> t1 - t2 = t1' - t2'"
      using lag by arith
    then show ?thesis
      using b(5,6) by (simp add: toeplitz_entry_def block_index)
  qed
  then show "elems (matrix_toeplitzify M T d) [t1 * d + i, t2 * d + j]
                      = elems (matrix_toeplitzify M T d) [t1' * d + i, t2' * d + j]"
    using e b by simp
next
  fix k t i j
  assume b: "k < T" "t < T - k" "i < d" "j < d"
  then have "t < T" "t + k < T" by simp_all
  from pair_less [OF this(1) b(3)] pair_less [OF this(2) b(4)]
  have "elems (matrix_toeplitzify M T d) [t * d + i, (t + k) * d + j]
          = toeplitz_entry M T d (t * d + i) ((t + k) * d + j)"
    by (rule toeplitzify_elems [OF assms(1,2)])
  then show "elems (matrix_toeplitzify M T d) [t * d + i, (t + k) * d + j] = lag_mean M T d k i j"
    using b by (simp add: toeplitz_entry_block)
qed

lemma rows_eqI:
  assumes "shape s = shape t"
    and "\<And>a b. a < shape t ! 0 \<Longrightarrow> b < shape t ! 1 \<Longrightarrow> elems s [a, b] = elems t [a, b]"
  shows "rows s = rows t"
  using assms by (simp add: rows_def)

text \<open>
  C7.  The output of \<open>matrix_toeplitzify\<close> equals its own transpose.
\<close>

theorem C7_symmetric:
  assumes "shape M = [T * d, T * d]" and "0 < T" and "0 < d"
  shows "rows (t2d (matrix_toeplitzify M T d)) = rows (matrix_toeplitzify M T d)"
proof (rule rows_eqI)
  show "shape (t2d (matrix_toeplitzify M T d)) = shape (matrix_toeplitzify M T d)"
    by (simp add: t2d_def transpose_t_def permute_def toeplitzify_shape)
next
  fix a b
  assume "a < shape (matrix_toeplitzify M T d) ! 0" "b < shape (matrix_toeplitzify M T d) ! 1"
  then have a: "a < T * d" and b: "b < T * d"
    by (simp_all add: toeplitzify_shape)
  have "elems (t2d (matrix_toeplitzify M T d)) [a, b] = elems (matrix_toeplitzify M T d) [b, a]"
    by (simp add: t2d_def transpose_t_def permute_def toeplitzify_shape)
  also have "\<dots> = toeplitz_entry M T d b a"
    using assms(1,2) b a by (rule toeplitzify_elems)
  also have "\<dots> = toeplitz_entry M T d a b"
    by (rule toeplitz_entry_commute)
  also have "\<dots> = elems (matrix_toeplitzify M T d) [a, b]"
    using assms(1,2) a b by (rule toeplitzify_elems [symmetric])
  finally show "elems (t2d (matrix_toeplitzify M T d)) [a, b] = elems (matrix_toeplitzify M T d) [a, b]" .
qed




lemma sum_blocks:
  fixes f :: "nat \<Rightarrow> real"
  shows "(\<Sum>a<T * d. f a) = (\<Sum>t<T. \<Sum>i<d. f (t * d + i))"
proof (induction T)
  case 0
  then show ?case by simp
next
  case (Suc T)
  have "(\<Sum>a<Suc T * d. f a) = sum f {0..<T * d} + sum f {T * d..<T * d + d}"
    by (simp add: lessThan_atLeast0 sum.atLeastLessThan_concat add.commute)
  also have "sum f {T * d..<T * d + d} = (\<Sum>i<d. f (T * d + i))"
    using sum.shift_bounds_nat_ivl [of f 0 "T * d" d]
    by (simp add: lessThan_atLeast0 add.commute)
  finally show ?case
    using Suc.IH by (simp add: lessThan_atLeast0)
qed


lemma M4_shape: "shape M4 = [2 * 2, 2 * 2]"
  by (simp add: M4_def of_rows_def)

theorem C1_block_toeplitz_witness:
  "shape M4 = [2 * 2, 2 * 2] \<and> shape (matrix_toeplitzify M4 2 2) = [2 * 2, 2 * 2] \<and>
   elems (matrix_toeplitzify M4 2 2) [0 * 2 + 0, 0 * 2 + 1] = elems (matrix_toeplitzify M4 2 2) [1 * 2 + 0, 1 * 2 + 1] \<and>
   elems (matrix_toeplitzify M4 2 2) [0 * 2 + 0, (0 + 1) * 2 + 1] = lag_mean M4 2 2 1 0 1 \<and>
   lag_mean M4 2 2 1 0 1 = 17 / 2"
proof -
  have T: "(0::nat) < 2"
    by simp
  note c = C1_block_toeplitz [OF M4_shape T T]
  have "shape (matrix_toeplitzify M4 2 2) = [2 * 2, 2 * 2]"
    using c by (rule conjunct1)
  moreover have "elems (matrix_toeplitzify M4 2 2) [0 * 2 + 0, 0 * 2 + 1]
                   = elems (matrix_toeplitzify M4 2 2) [1 * 2 + 0, 1 * 2 + 1]"
    using c [THEN conjunct2, THEN conjunct1, rule_format, of 0 0 1 1 0 1] by simp
  moreover have "elems (matrix_toeplitzify M4 2 2) [0 * 2 + 0, (0 + 1) * 2 + 1] = lag_mean M4 2 2 1 0 1"
    using c [THEN conjunct2, THEN conjunct2, rule_format, of 1 0 0 1] by simp
  moreover have "lag_mean M4 2 2 1 0 1 = 17 / 2"
    by (simp add: lag_mean_def sym_part_def M4_def of_rows_def)
  ultimately show ?thesis
    using M4_shape by (simp only: simp_thms)
qed

theorem C7_symmetric_witness:
  "shape M4 = [2 * 2, 2 * 2] \<and>
   rows (t2d (matrix_toeplitzify M4 2 2)) = rows (matrix_toeplitzify M4 2 2)"
  using C7_symmetric [OF M4_shape] M4_shape by simp



section \<open>Properties of the estimator\<close>

lemma indices_column: "indices [n, 1] = map (\<lambda>i. [i, 0]) [0..<n]"
  by (simp add: comp_def)

lemma sum_list_upt: "sum_list (map f [0..<n]) = (\<Sum>i<n. f i)"
  by (simp add: interv_sum_list_conv_sum_set_nat lessThan_atLeast0)

lemma mask_float_elems:
  fixes T :: nat
  assumes "shape src_mask = [B, L]"
  defines "mask_float \<equiv> unsqueeze (flatten (tmap of_bool (all_dim (unfold src_mask 1 T 1) 2))) 1"
  shows "shape mask_float = [B * (L - T + 1), 1]"
    and "elems mask_float [n, c] = of_bool (window_valid src_mask T (n div (L - T + 1)) (n mod (L - T + 1)))"
  using assms
  by (simp_all add: mask_float_def unsqueeze_def flatten_def reshape_def numel_def tmap_def all_dim_def
        unfold_def window_valid_def)

lemma n_valid_eq:
  assumes "shape src_mask = [B, L]"
  shows "sum_all (unsqueeze (flatten (tmap of_bool (all_dim (unfold src_mask 1 T 1) 2))) 1)
           = (\<Sum>n<B * (L - T + 1). of_bool (window_valid src_mask T (n div (L - T + 1)) (n mod (L - T + 1))))"
  unfolding sum_all_def mask_float_elems(1) [OF assms] indices_column
  by (simp only: map_map comp_def mask_float_elems(2) [OF assms] sum_list_upt)



lemma cov_est_shape:
  assumes "shape xs = [N, n]" and "shape mf = [M, 1]"
  shows "shape (tmap f (matmul (t2d (tmul (tsub xs (tmap g (sum_keep (tmul xs mf) 0))) mf))
                          (tsub xs (tmap g (sum_keep (tmul xs mf) 0))))) = [n, n]"
  using assms
  by (simp add: tmap_def matmul_def t2d_def transpose_t_def permute_def tmul_def tsub_def binop_def
        sum_keep_def)








lemma sum_div_mod:
  fixes g :: "nat \<Rightarrow> nat \<Rightarrow> real"
  shows "(\<Sum>n<B * W. g (n div W) (n mod W)) = (\<Sum>b<B. \<Sum>w<W. g b w)"
proof -
  have "(\<Sum>n<B * W. g (n div W) (n mod W)) = (\<Sum>b<B. \<Sum>w<W. g ((b * W + w) div W) ((b * W + w) mod W))"
    by (rule sum_blocks)
  also have "\<dots> = (\<Sum>b<B. \<Sum>w<W. g b w)"
    by (intro sum.cong refl) simp
  finally show ?thesis .
qed

lemma lagged_elems:
  assumes sh: "shape xs_pad = [B, L, d]" and d: "0 < d" and TL: "T \<le> L"
    and n: "n < B * (L - T + 1)" and k: "k < T * d"
  defines "xs0 \<equiv> unfold (reshape xs_pad [B, L * d]) 1 (T * d) d"
  shows "elems (reshape xs0 [numel xs0 div (T * d), T * d]) [n, k]
           = lagged xs_pad d (n div (L - T + 1)) (n mod (L - T + 1)) k"
    and "shape (reshape xs0 [numel xs0 div (T * d), T * d]) = [B * (L - T + 1), T * d]"
proof -
  define W where "W = L - T + 1"
  define b w where "b = n div W" and "w = n mod W"
  have Td: "0 < T * d" using k by linarith
  have b: "b < B"
    unfolding b_def using n by (simp add: W_def less_mult_imp_div_less)
  have w: "w < W"
    unfolding w_def by (simp add: W_def)
  have nbw: "n = b * W + w"
    by (simp add: b_def w_def)
  have "L * d - T * d = (L - T) * d"
    by (simp add: diff_mult_distrib)
  then have shxs0: "shape xs0 = [B, W, T * d]"
    using d by (simp add: xs0_def unfold_def reshape_def W_def)
  have "numel xs0 = (B * W) * (T * d)"
    by (simp add: numel_def shxs0)
  then have num: "numel xs0 div (T * d) = B * W"
    using Td by simp
  show "shape (reshape xs0 [numel xs0 div (T * d), T * d]) = [B * (L - T + 1), T * d]"
    by (simp add: reshape_def num W_def)
  have kd: "k div d < T"
    using k by (simp add: less_mult_imp_div_less)
  have wl: "w + k div d < L"
    using w kd TL by (simp add: W_def)
  have "elems (reshape xs0 [numel xs0 div (T * d), T * d]) [n, k] = elems xs0 [b, w, k]"
    unfolding num using b w k
    by (intro reshape_elems) (simp_all add: shxs0 nbw algebra_simps)
  also have "\<dots> = elems (reshape xs_pad [B, L * d]) [b, w * d + k]"
    by (simp add: xs0_def unfold_def)
  also have "\<dots> = elems xs_pad [b, w + k div d, k mod d]"
  proof (rule reshape_elems)
    show "list_all2 (<) [b, w + k div d, k mod d] (shape xs_pad)"
      using b wl d by (simp add: sh)
    have "k div d * d + k mod d = k"
      by (rule div_mult_mod_eq)
    then show "ravel (shape xs_pad) [b, w + k div d, k mod d] = ravel [B, L * d] [b, w * d + k]"
      by (simp add: sh algebra_simps)
  qed
  finally show "elems (reshape xs0 [numel xs0 div (T * d), T * d]) [n, k]
           = lagged xs_pad d (n div (L - T + 1)) (n mod (L - T + 1)) k"
    by (simp add: lagged_def b_def w_def W_def)
qed


lemma cov_est_elems:
  fixes nv :: real
  assumes shx: "shape xs = [N, m]" and shm: "shape mf = [N, 1]"
    and ones: "\<And>n c. n < N \<Longrightarrow> elems mf [n, c] = 1"
    and p: "p < m" and q: "q < m"
  defines "mu \<equiv> (\<lambda>k. (\<Sum>n<N. elems xs [n, k]) / nv)"
  defines "xc \<equiv> tsub xs (tmap (\<lambda>x. x / nv) (sum_keep (tmul xs mf) 0))"
  shows "elems (tmap (\<lambda>x. x / nv) (matmul (t2d (tmul xc mf)) xc)) [p, q]
           = (\<Sum>n<N. (elems xs [n, p] - mu p) * (elems xs [n, q] - mu q)) / nv"
proof -
  have mul: "elems (tmul t mf) [n, k] = elems t [n, k]"
    if "shape t = [N, m]" "n < N" "k < m" for t n k
    using that ones [of 0] ones [of n]
    by (auto simp add: tmul_def binop_def expand_idx_def shm)
  have shmul: "shape (tmul t mf) = [N, m]" if "shape t = [N, m]" for t
    using that by (auto simp add: tmul_def binop_def shm)
  have mean: "elems (tmap (\<lambda>x. x / nv) (sum_keep (tmul xs mf) 0)) [0, k] = mu k" if "k < m" for k
  proof -
    have "(\<Sum>n<N. elems (tmul xs mf) [n, k]) = (\<Sum>n<N. elems xs [n, k])"
      using that by (intro sum.cong refl) (simp add: mul [OF shx])
    then show ?thesis
      by (simp add: tmap_def sum_keep_def shmul [OF shx] mu_def)
  qed
  have shmean: "shape (tmap (\<lambda>x. x / nv) (sum_keep (tmul xs mf) 0)) = [1, m]"
    by (simp add: tmap_def sum_keep_def shmul [OF shx])
  have xc: "elems xc [n, k] = elems xs [n, k] - mu k" if "n < N" "k < m" for n k
  proof -
    have "elems xc [n, k] = elems xs [n, k] - elems (tmap (\<lambda>x. x / nv) (sum_keep (tmul xs mf) 0)) [0, k]"
      unfolding xc_def tsub_def binop_def shmean shx using that
      by (auto simp add: expand_idx_def)
    then show ?thesis
      using that by (simp only: mean)
  qed
  have shxc: "shape xc = [N, m]"
    unfolding xc_def tsub_def binop_def shmean shx by auto
  have "elems (matmul (t2d (tmul xc mf)) xc) [p, q]
          = (\<Sum>n<N. elems (tmul xc mf) [n, p] * elems xc [n, q])"
    by (simp add: matmul_def t2d_def transpose_t_def permute_def shmul [OF shxc])
  also have "\<dots> = (\<Sum>n<N. (elems xs [n, p] - mu p) * (elems xs [n, q] - mu q))"
    using p q by (intro sum.cong refl) (simp add: mul [OF shxc] xc)
  finally show ?thesis
    by (simp add: tmap_def)
qed

text \<open>
  C6.  With a mask that is true everywhere, \<open>reg = 0\<close>, no Toeplitz step and every row longer
  than \<open>T\<close>, \<open>calc_cov_from_data\<close> returns the plain empirical cross-covariance of the
  \<open>B * (L - T + 1)\<close> sliding-window lagged vectors: the mean over all the windows is
  subtracted from each of them and the outer products are averaged.
\<close>

theorem C6_plain_covariance:
  assumes xs: "shape xs_pad = [B, L, d]" and m: "shape src_mask = [B, L]"
    and all_true: "\<forall>b<B. \<forall>l<L. elems src_mask [b, l]"
    and B: "0 < B" and d: "0 < d" and T: "0 < T" and TL: "T < L"
  shows "\<exists>C. calc_cov_from_data xs_pad src_mask T False 0 = Inr (Cov C) \<and>
             shape C = [T * d, T * d] \<and>
             (\<forall>p<T * d. \<forall>q<T * d. elems C [p, q] = empirical_cov xs_pad B (L - T + 1) d p q)"
proof -
  define W where "W = L - T + 1"
  define mf :: "real tensor"
    where "mf = unsqueeze (flatten (tmap of_bool (all_dim (unfold src_mask 1 T 1) 2))) 1"
  define xs0 where "xs0 = unfold (reshape xs_pad [B, L * d]) 1 (T * d) d"
  define xs where "xs = reshape xs0 [numel xs0 div (T * d), T * d]"
  define xc where "xc = tsub xs (tmap (\<lambda>x. x / sum_all mf) (sum_keep (tmul xs mf) 0))"
  define C where "C = tmap (\<lambda>x. x / sum_all mf) (matmul (t2d (tmul xc mf)) xc)"
  have W: "0 < W" by (simp add: W_def)
  have valid: "window_valid src_mask T (n div W) (n mod W)" if "n < B * W" for n
  proof -
    have "n div W < B"
      using that by (simp add: less_mult_imp_div_less)
    moreover have "n mod W + k < L" if "k < T" for k
    proof -
      define r where "r = n mod W"
      have "r < W"
        unfolding r_def using W by (rule mod_less_divisor)
      then have "r + k < L"
        using that TL by (simp add: W_def)
      then show ?thesis
        by (simp only: r_def)
    qed
    ultimately show ?thesis
      using all_true by (simp add: window_valid_def list_all_iff)
  qed
  have shmf: "shape mf = [B * W, 1]"
    unfolding mf_def W_def using m by (rule mask_float_elems(1))
  have ones: "elems mf [n, c] = 1" if "n < B * W" for n c
    unfolding mf_def mask_float_elems(2) [OF m] using valid [OF that] by (simp add: W_def)
  have "sum_all mf = (\<Sum>n<B * W. of_bool (window_valid src_mask T (n div W) (n mod W)))"
    unfolding mf_def W_def using m by (rule n_valid_eq)
  also have "\<dots> = (\<Sum>n<B * W. 1)"
    by (intro sum.cong refl) (simp add: valid)
  finally have nv: "sum_all mf = real (B * W)"
    by simp
  have nv0: "sum_all mf \<noteq> 0"
    unfolding nv using B W by simp
  have "valid_length src_mask b = L" if "b < B" for b
    using that all_true by (simp add: valid_length_def m)
  then have "map (valid_length src_mask) [0..<B] = map (\<lambda>b. L) [0..<B]"
    by simp
  moreover have "min_list (map (\<lambda>b. L) [0..<B]) = L"
    using B by (simp add: min_list_Min)
  ultimately have "min_list (map (valid_length src_mask) [0..<B]) = L"
    by (simp only:)
  then have chk: "\<not> min_t (sum_dim (tmap of_bool src_mask) 1) \<le> T"
    unfolding mask_row_counts [OF m] using TL by linarith
  have calc: "calc_cov_from_data xs_pad src_mask T False 0 = Inr (Cov C)"
    using chk nv0
    unfolding calc_cov_from_data_def Let_def C_def xc_def xs_def xs0_def mf_def xs
    by simp
  have shxs: "shape xs = [B * W, T * d]"
    unfolding xs_def xs0_def W_def using xs d less_imp_le [OF TL]
  proof (rule lagged_elems(2))
    show "0 < B * (L - T + 1)" using B by simp
    show "0 < T * d" using T d by simp
  qed
  have elxs: "elems xs [n, k] = lagged xs_pad d (n div W) (n mod W) k"
    if "n < B * W" "k < T * d" for n k
    unfolding xs_def xs0_def W_def using xs d less_imp_le [OF TL] that [unfolded W_def]
    by (rule lagged_elems(1))
  have shC: "shape C = [T * d, T * d]"
    unfolding C_def xc_def using shxs shmf by (rule cov_est_shape)
  have mu: "(\<Sum>n<B * W. elems xs [n, k]) / sum_all mf = lagged_mean xs_pad B W d k"
    if k: "k < T * d" for k
  proof -
    have "(\<Sum>n<B * W. elems xs [n, k]) = (\<Sum>n<B * W. lagged xs_pad d (n div W) (n mod W) k)"
      using k by (intro sum.cong refl) (simp add: elxs)
    also have "\<dots> = (\<Sum>b<B. \<Sum>w<W. lagged xs_pad d b w k)"
      by (rule sum_div_mod)
    finally show ?thesis
      by (simp add: lagged_mean_def nv)
  qed
  have "elems C [p, q] = empirical_cov xs_pad B W d p q" if p: "p < T * d" and q: "q < T * d" for p q
  proof -
    have "elems C [p, q]
            = (\<Sum>n<B * W. (elems xs [n, p] - (\<Sum>n<B * W. elems xs [n, p]) / sum_all mf)
                         * (elems xs [n, q] - (\<Sum>n<B * W. elems xs [n, q]) / sum_all mf)) / sum_all mf"
      unfolding C_def xc_def using shxs shmf ones p q by (rule cov_est_elems)
    also have "\<dots> = (\<Sum>n<B * W. (lagged xs_pad d (n div W) (n mod W) p - lagged_mean xs_pad B W d p)
                         * (lagged xs_pad d (n div W) (n mod W) q - lagged_mean xs_pad B W d q)) / sum_all mf"
      unfolding mu [OF p] mu [OF q] using p q
      by (intro arg_cong2 [where f = "(/)"] sum.cong refl) (simp add: elxs)
    also have "\<dots> = (\<Sum>b<B. \<Sum>w<W. (lagged xs_pad d b w p - lagged_mean xs_pad B W d p)
                         * (lagged xs_pad d b w q - lagged_mean xs_pad B W d q)) / sum_all mf"
      by (simp only: sum_div_mod [of "\<lambda>b w. (lagged xs_pad d b w p - lagged_mean xs_pad B W d p)
                         * (lagged xs_pad d b w q - lagged_mean xs_pad B W d q)"])
    finally show ?thesis
      by (simp add: empirical_cov_def nv)
  qed
  with calc shC show ?thesis
    unfolding W_def by blast
qed


text \<open>
  The scenario B = 1, L = 6, d = 1, X = 1, ..., 6 and T = 2: the lagged vectors are (1,2),
  (2,3), (3,4), (4,5), (5,6), their mean is (3,4), and all four entries of the covariance
  are (4 + 1 + 0 + 1 + 4) / 5 = 2.
\<close>

lemma X6_cov:
  "empirical_cov X6 1 5 1 0 0 = 2" "empirical_cov X6 1 5 1 0 1 = 2"
  "empirical_cov X6 1 5 1 1 0 = 2" "empirical_cov X6 1 5 1 1 1 = 2"
  by code_simp+

theorem C6_plain_covariance_witness:
  "map (\<lambda>w. map (lagged X6 1 0 w) [0..<2]) [0..<5] = [[1, 2], [2, 3], [3, 4], [4, 5], [5, 6]] \<and>
   (\<exists>C. calc_cov_from_data X6 (prefix_mask [6] 6) 2 False 0 = Inr (Cov C) \<and>
        rows C = [[2, 2], [2, 2]])"
proof
  show "map (\<lambda>w. map (lagged X6 1 0 w) [0..<2]) [0..<5] = [[1, 2], [2, 3], [3, 4], [4, 5], [5, 6]]"
    by code_simp
  have "shape X6 = [1, 6, 1]" "shape (prefix_mask [6] 6) = [1, 6]"
    "\<forall>b<1. \<forall>l<6. elems (prefix_mask [6] 6) [b, l]"
    by (simp_all add: X6_def prefix_mask_def)
  from C6_plain_covariance [OF this, of 2]
  obtain C where calc: "calc_cov_from_data X6 (prefix_mask [6] 6) 2 False 0 = Inr (Cov C)"
    and sh: "shape C = [2, 2]"
    and el: "\<And>p q. p < 2 \<Longrightarrow> q < 2 \<Longrightarrow> elems C [p, q] = empirical_cov X6 1 5 1 p q"
    by auto
  have "rows C = [[elems C [0, 0], elems C [0, 1]], [elems C [1, 0], elems C [1, 1]]]"
    by (simp add: rows_def sh upt_rec numeral_2_eq_2)
  also have "\<dots> = [[2, 2], [2, 2]]"
    using X6_cov by (simp add: el)
  finally show "\<exists>C. calc_cov_from_data X6 (prefix_mask [6] 6) 2 False 0 = Inr (Cov C) \<and>
        rows C = [[2, 2], [2, 2]]"
    using calc by blast
qed

section \<open>Properties of the mutual-information calculator and of the rectifier\<close>

lemma rows_leading:
  assumes "shape cov = [n, m]" and "k \<le> n" and "k \<le> m"
  shows "rows (slice_to (slice_to cov 0 k) 1 k) = leading_block (rows cov) k"
    and "shape (slice_to (slice_to cov 0 k) 1 k) = [k, k]"
  using assms
  by (simp_all add: rows_def slice_to_def leading_block_def take_map min_def)

lemma calc_pi_square:
  assumes "shape cov = [n, n]"
  shows "calc_pi_from_cov cov
           = Inr (xsub (logdet_rows (leading_block (rows cov) (n div 2)))
                       (xscale (1 / 2) (logdet_rows (rows cov))))"
proof -
  have k: "n div 2 \<le> n" by simp
  show ?thesis
    using rows_leading [OF assms k k]
    by (simp add: calc_pi_from_cov_def Let_def logdet_def assms)
qed




text \<open>
  C9.  A square matrix of odd size \<open>n\<close> is not rejected: \<open>T_pi\<close> is \<open>n div 2\<close> and the result
  is \<open>logdet(cov[:T_pi, :T_pi]) - 0.5 * logdet(cov)\<close> over the whole matrix.
\<close>

theorem C9_odd_size:
  assumes "shape cov = [n, n]" and "odd n"
  shows "calc_pi_from_cov cov
           = Inr (xsub (logdet_rows (leading_block (rows cov) (n div 2)))
                       (xscale (1 / 2) (logdet_rows (rows cov))))"
  using assms(1) by (rule calc_pi_square)

theorem C9_odd_size_witness:
  "shape D3x3 = [3, 3] \<and> odd (3::nat) \<and> leading_block (rows D3x3) (3 div 2) = [[2]] \<and>
   calc_pi_from_cov D3x3 = Inr (Fin (ln 2 - 1 / 2 * ln 24))"
proof -
  have sh: "shape D3x3 = [3, 3]"
    by (simp add: D3x3_def of_rows_def)
  have r: "rows D3x3 = [[2, 0, 0], [0, 3, 0], [0, 0, 4]]"
    by code_simp
  have l: "leading_block (rows D3x3) (3 div 2) = [[2]]"
    unfolding r by code_simp
  have d: "det [[2]] = 2" "det (rows D3x3) = 24"
    unfolding r by code_simp+
  have o: "odd (3::nat)"
    by simp
  show ?thesis
    using C9_odd_size [OF sh o] sh l by (simp add: logdet_rows_def d)
qed
















end
